theory Spec2Isabelle
  imports Complex_Main "HOL-Library.Word"
begin

section \<open>fxART: curve rasterizer and edge-aware flood fill\<close>

text \<open>
  A shallow embedding of \<^verbatim>\<open>src/components/Canvas.jsx\<close> (\<^verbatim>\<open>drawFunction\<close>,
  \<^verbatim>\<open>fitCanvas\<close>) and of \<^verbatim>\<open>src/App.jsx\<close> (\<^verbatim>\<open>floodFill\<close>).

  JavaScript numbers are modelled by \<^typ>\<open>real\<close> where the code computes with finite
  numbers, with an explicit \<open>NaN\<close> where the code tests truthiness, and by
  \<^typ>\<open>int option\<close> (with \<open>None\<close> for \<open>NaN\<close>) in the flood fill, where a read outside a
  typed array yields \<^verbatim>\<open>undefined\<close>. The resize takes the floor of a product of doubles,
  so there the product is rounded to the nearest double; the formulas of the rasterizer
  are taken over the reals.
\<close>

subsection \<open>Stroke style (Canvas.jsx, lines 87--91)\<close>

datatype jsnum = Num real | NaN

text \<open>\<^verbatim>\<open>v || d\<close> on a number: \<open>0\<close> and \<open>NaN\<close> are falsy, every other number is truthy.\<close>

fun or_default :: "jsnum \<Rightarrow> real \<Rightarrow> real" where
  "or_default (Num v) d = (if v = 0 then d else v)"
| "or_default NaN d = d"

text \<open>\<^verbatim>\<open>ctx.globalAlpha = Math.min(1, Math.max(0, lineOpacity || 1))\<close>\<close>

definition globalAlpha :: "jsnum \<Rightarrow> real" where
  "globalAlpha lineOpacity = min 1 (max 0 (or_default lineOpacity 1))"

text \<open>\<^verbatim>\<open>ctx.lineWidth = Math.max(0.5, Number(lineWidth || 2))\<close>\<close>

definition strokeWidth :: "jsnum \<Rightarrow> real" where
  "strokeWidth lineWidth = max (1 / 2) (or_default lineWidth 2)"

text \<open>The clamp of the specification: \<open>lineOpacity\<close> clamped to \<open>[0,1]\<close>.\<close>

definition clamp01 :: "real \<Rightarrow> real" where
  "clamp01 v = min 1 (max 0 v)"

subsection \<open>Resize (Canvas.jsx, \<^verbatim>\<open>fitCanvas\<close>, lines 132--148)\<close>

record canvas_size =
  cwidth :: int
  cheight :: int
  c_dpr :: real

text \<open>\<^verbatim>\<open>const dpr = Math.max(1, window.devicePixelRatio || 1)\<close>\<close>

definition effective_dpr :: "jsnum \<Rightarrow> real" where
  "effective_dpr devicePixelRatio = max 1 (or_default devicePixelRatio 1)"

text \<open>
  Rounding to the nearest double, ties to even (IEEE 754 binary64, round-to-nearest): a
  number with binary exponent \<open>e\<close> is rounded to a multiple of \<open>2 ^ (e - 52)\<close>. Overflow
  and subnormal numbers are outside what a canvas size can be and are left out.
\<close>

definition round_even :: "real \<Rightarrow> int" where
  "round_even r =
     (let f = \<lfloor>r\<rfloor>
      in if r - of_int f < 1 / 2 then f
         else if 1 / 2 < r - of_int f then f + 1
         else if even f then f else f + 1)"

definition double_round :: "real \<Rightarrow> real" where
  "double_round x =
     (if x = 0 then 0
      else let u = 2 powr (of_int \<lfloor>log 2 \<bar>x\<bar>\<rfloor> - 52)
           in u * of_int (round_even (x / u)))"

text \<open>
  \<^verbatim>\<open>canvas.width = Math.floor(cssWidth * dpr); canvas.height = Math.floor(cssHeight * dpr);
  canvas._dpr = dpr\<close>. The logical size is \<open>cssWidth\<close> by \<open>cssHeight\<close>, two integers
  (\<^verbatim>\<open>clientWidth\<close>, and \<^verbatim>\<open>clientHeight\<close> or the result of \<^verbatim>\<open>Math.round\<close>); each product
  is a product of doubles.
\<close>

definition fitCanvas :: "int \<Rightarrow> int \<Rightarrow> jsnum \<Rightarrow> canvas_size" where
  "fitCanvas cssWidth cssHeight devicePixelRatio =
     (let dpr = effective_dpr devicePixelRatio
      in \<lparr> cwidth = \<lfloor>double_round (real_of_int cssWidth * dpr)\<rfloor>,
           cheight = \<lfloor>double_round (real_of_int cssHeight * dpr)\<rfloor>,
           c_dpr = dpr \<rparr>)"

subsection \<open>Curve rasterizer (Canvas.jsx, \<^verbatim>\<open>drawFunction\<close>, lines 8--95)\<close>

definition xMin :: real where "xMin = - 10"
definition xMax :: real where "xMax = 10"
definition yMin :: real where "yMin = - 5"
definition yMax :: real where "yMax = 5"

text \<open>\<^verbatim>\<open>const rad = (tiltAngleDeg * Math.PI) / 180\<close>\<close>

definition rad_of :: "real \<Rightarrow> real" where
  "rad_of tiltAngleDeg = (tiltAngleDeg * pi) / 180"

text \<open>\<^verbatim>\<open>Math.abs(width * Math.cos(rad)) + Math.abs(height * Math.sin(rad))\<close>\<close>

definition rotatedWidth :: "real \<Rightarrow> real \<Rightarrow> real \<Rightarrow> real" where
  "rotatedWidth width height rad = \<bar>width * cos rad\<bar> + \<bar>height * sin rad\<bar>"

text \<open>\<^verbatim>\<open>const overscanPx = Math.max(0, (rotatedWidth - width) / 2)\<close>\<close>

definition overscanPx :: "real \<Rightarrow> real \<Rightarrow> real \<Rightarrow> real" where
  "overscanPx width height rad = max 0 ((rotatedWidth width height rad - width) / 2)"

text \<open>\<^verbatim>\<open>const pxPerXExt = (width + 2 * overscanPx) / (xMax - xMin)\<close>\<close>

definition pxPerXExt :: "real \<Rightarrow> real \<Rightarrow> real \<Rightarrow> real" where
  "pxPerXExt width height rad = (width + 2 * overscanPx width height rad) / (xMax - xMin)"

definition pxPerY :: "real \<Rightarrow> real" where
  "pxPerY height = height / (yMax - yMin)"

text \<open>\<^verbatim>\<open>const steps = Math.max(300, Math.floor(effectiveWidth))\<close>\<close>

definition steps_of :: "real \<Rightarrow> real \<Rightarrow> real \<Rightarrow> nat" where
  "steps_of width height rad = nat (max 300 \<lfloor>width + 2 * overscanPx width height rad\<rfloor>)"

text \<open>\<^verbatim>\<open>const t = i / steps; const x = xMin + t * (xMax - xMin)\<close>\<close>

definition sample_x :: "nat \<Rightarrow> nat \<Rightarrow> real" where
  "sample_x steps i = xMin + (real i / real steps) * (xMax - xMin)"

text \<open>\<^verbatim>\<open>const px = (x - xMin) * pxPerXExt - overscanPx\<close>\<close>

definition to_px :: "real \<Rightarrow> real \<Rightarrow> real \<Rightarrow> real \<Rightarrow> real" where
  "to_px width height rad x =
     (x - xMin) * pxPerXExt width height rad - overscanPx width height rad"

text \<open>\<^verbatim>\<open>const py = height - (y - yMin) * pxPerY\<close>\<close>

definition to_py :: "real \<Rightarrow> real \<Rightarrow> real" where
  "to_py height y = height - (y - yMin) * pxPerY height"

text \<open>
  What one call of \<^verbatim>\<open>compiled.evaluate(scope)\<close> followed by the conversion and the
  \<^verbatim>\<open>isFinite\<close> test gives: a finite number, a non-finite one, or an exception.
\<close>

datatype outcome = Finite real | NonFinite | Threw

datatype path_op = MoveTo real real | LineTo real real

text \<open>
  One iteration of the sampling loop (lines 60--86). The state is the flag \<^verbatim>\<open>first\<close> and
  the path built so far (most recent command last).
\<close>

definition plot_step ::
  "(real \<Rightarrow> outcome) \<Rightarrow> real \<Rightarrow> real \<Rightarrow> real \<Rightarrow> nat \<Rightarrow> nat \<Rightarrow> bool \<times> path_op list
     \<Rightarrow> bool \<times> path_op list" where
  "plot_step evaluate width height rad steps i st =
     (let x = sample_x steps i
      in case evaluate x of
           NonFinite \<Rightarrow> (True, snd st)
         | Threw \<Rightarrow> (True, snd st)
         | Finite y \<Rightarrow>
             (let px = to_px width height rad x; py = to_py height y
              in if fst st then (False, snd st @ [MoveTo px py])
                 else (False, snd st @ [LineTo px py])))"

definition plot_path :: "(real \<Rightarrow> outcome) \<Rightarrow> real \<Rightarrow> real \<Rightarrow> real \<Rightarrow> path_op list" where
  "plot_path evaluate width height tiltAngleDeg =
     (let rad = rad_of tiltAngleDeg; steps = steps_of width height rad
      in snd (fold (plot_step evaluate width height rad steps) [0..<Suc steps] (True, [])))"

fun is_MoveTo :: "path_op \<Rightarrow> bool" where
  "is_MoveTo (MoveTo _ _) = True"
| "is_MoveTo (LineTo _ _) = False"

definition moveTo_count :: "path_op list \<Rightarrow> nat" where
  "moveTo_count path = length (filter is_MoveTo path)"

fun failed :: "outcome \<Rightarrow> bool" where
  "failed (Finite _) = False"
| "failed NonFinite = True"
| "failed Threw = True"

text \<open>The samples of one render, in order, as failure flags.\<close>

definition sample_failures :: "(real \<Rightarrow> outcome) \<Rightarrow> real \<Rightarrow> real \<Rightarrow> real \<Rightarrow> bool list" where
  "sample_failures evaluate width height tiltAngleDeg =
     (let steps = steps_of width height (rad_of tiltAngleDeg)
      in map (\<lambda>i. failed (evaluate (sample_x steps i))) [0..<Suc steps])"

definition failure_count :: "(real \<Rightarrow> outcome) \<Rightarrow> real \<Rightarrow> real \<Rightarrow> real \<Rightarrow> nat" where
  "failure_count evaluate width height tiltAngleDeg =
     length (filter id (sample_failures evaluate width height tiltAngleDeg))"

subsection \<open>Flood fill (App.jsx, \<^verbatim>\<open>floodFill\<close>, lines 98--206)\<close>

text \<open>
  The pixel buffer \<^verbatim>\<open>img.data\<close> is a \<^verbatim>\<open>Uint8ClampedArray\<close>: a flat list of bytes, four
  per pixel. A read outside the array gives \<^verbatim>\<open>undefined\<close> (\<open>None\<close>), a write outside
  it is ignored. Colours produced by \<^verbatim>\<open>hexToRgba\<close> are four bytes (each channel is
  masked with \<^verbatim>\<open>& 255\<close>, alpha is 255), so the fill and background colours are taken as
  byte quadruples. The seed coordinates are integers (both callers apply
  \<^verbatim>\<open>Math.floor\<close>), \<open>tolerance\<close> is an integer and \<open>gapClose\<close> a natural number
  (the sliders have step 1 and minimum 0).
\<close>

type_synonym byte = "8 word"
type_synonym rgba = "byte \<times> byte \<times> byte \<times> byte"
type_synonym target = "byte option \<times> byte option \<times> byte option \<times> byte option"

definition rd :: "byte list \<Rightarrow> int \<Rightarrow> byte option" where
  "rd data i = (if 0 \<le> i \<and> i < int (length data) then Some (data ! nat i) else None)"

definition wr :: "byte list \<Rightarrow> int \<Rightarrow> byte \<Rightarrow> byte list" where
  "wr data i v = (if 0 \<le> i \<and> i < int (length data) then data[nat i := v] else data)"

text \<open>\<^verbatim>\<open>const idx = (xx, yy) => (yy * width + xx) * 4\<close>\<close>

definition idx :: "nat \<Rightarrow> int \<Rightarrow> int \<Rightarrow> int" where
  "idx width xx yy = (yy * int width + xx) * 4"

text \<open>
  Arithmetic on channel values: \<^verbatim>\<open>undefined - n\<close> is \<open>NaN\<close>, \<open>NaN\<close> propagates through
  \<^verbatim>\<open>Math.abs\<close> and \<^verbatim>\<open>+\<close>, and every comparison with \<open>NaN\<close> is false.
\<close>

fun jsub :: "byte option \<Rightarrow> byte option \<Rightarrow> int option" where
  "jsub (Some u) (Some v) = Some (uint u - uint v)"
| "jsub _ _ = None"

fun jabs :: "int option \<Rightarrow> int option" where
  "jabs (Some d) = Some \<bar>d\<bar>"
| "jabs None = None"

fun jadd :: "int option \<Rightarrow> int option \<Rightarrow> int option" where
  "jadd (Some a) (Some b) = Some (a + b)"
| "jadd _ _ = None"

fun jle :: "int option \<Rightarrow> int \<Rightarrow> bool" where
  "jle (Some a) t = (a \<le> t)"
| "jle None t = False"

fun jgt :: "int option \<Rightarrow> int \<Rightarrow> bool" where
  "jgt (Some a) t = (t < a)"
| "jgt None t = False"

text \<open>\<^verbatim>\<open>sameColor = (o, n) => o[0] === n[0] && o[1] === n[1] && o[2] === n[2] && o[3] === n[3]\<close>\<close>

fun sameColor :: "target \<Rightarrow> rgba \<Rightarrow> bool" where
  "sameColor (o0, o1, o2, o3) (n0, n1, n2, n3) =
     (o0 = Some n0 \<and> o1 = Some n1 \<and> o2 = Some n2 \<and> o3 = Some n3)"

text \<open>Lines 118--121: the distance to the background colour, over R, G and B.\<close>

fun dist_bg :: "byte list \<Rightarrow> int \<Rightarrow> rgba \<Rightarrow> int option" where
  "dist_bg data i (r, g, b, a) =
     jadd (jadd (jabs (jsub (rd data i) (Some r)))
                (jabs (jsub (rd data (i + 1)) (Some g))))
          (jabs (jsub (rd data (i + 2)) (Some b)))"

text \<open>Lines 157--161 and 172--176: the distance to the target colour, over all four channels.\<close>

fun dist_target :: "byte list \<Rightarrow> int \<Rightarrow> target \<Rightarrow> int option" where
  "dist_target data i (t0, t1, t2, t3) =
     jadd (jadd (jadd (jabs (jsub (rd data i) t0))
                      (jabs (jsub (rd data (i + 1)) t1)))
                (jabs (jsub (rd data (i + 2)) t2)))
          (jabs (jsub (rd data (i + 3)) t3))"

text \<open>
  The barrier mask is a \<^verbatim>\<open>Uint8Array(width * height)\<close> of zeros and ones. \<open>mask_at\<close>
  is the truthiness of \<^verbatim>\<open>barrier[p]\<close>: an index outside the array reads \<^verbatim>\<open>undefined\<close>.
\<close>

definition mask_at :: "bool list \<Rightarrow> int \<Rightarrow> bool" where
  "mask_at bar p = (0 \<le> p \<and> p < int (length bar) \<and> bar ! nat p)"

definition barrierThreshold :: int where
  "barrierThreshold = 40"

text \<open>
  Lines 114--123. The loop runs \<open>p = 0, 1, \<dots>\<close> with \<open>i = 4 * p\<close> while
  \<open>i < data.length\<close>.
\<close>

definition pixel_slots :: "byte list \<Rightarrow> nat list" where
  "pixel_slots data = [0..<(length data + 3) div 4]"

definition build_barrier :: "nat \<Rightarrow> nat \<Rightarrow> byte list \<Rightarrow> rgba \<Rightarrow> bool list" where
  "build_barrier width height data bg =
     fold (\<lambda>p bar. if jgt (dist_bg data (4 * int p) bg) barrierThreshold
                    then bar[p := True] else bar)
          (pixel_slots data) (replicate (width * height) False)"

text \<open>Lines 134--144: is one of the eight neighbours inside the image a barrier?\<close>

definition nbr_found :: "nat \<Rightarrow> nat \<Rightarrow> bool list \<Rightarrow> int \<Rightarrow> int \<Rightarrow> bool" where
  "nbr_found width height cur x y =
     list_ex (\<lambda>dy.
        let yy = y + dy
        in if yy < 0 \<or> yy \<ge> int height then False
           else list_ex (\<lambda>dx.
                  if dx = 0 \<and> dy = 0 then False
                  else let xx = x + dx
                       in if xx < 0 \<or> xx \<ge> int width then False
                          else mask_at cur (yy * int width + xx))
                [- 1, 0, 1])
       [- 1, 0, 1]"

text \<open>Lines 129--148: one dilation iteration builds \<^verbatim>\<open>next\<close> from \<^verbatim>\<open>cur\<close>, row by row.\<close>

definition dilate_pass :: "nat \<Rightarrow> nat \<Rightarrow> bool list \<Rightarrow> bool list" where
  "dilate_pass width height cur =
     concat (map (\<lambda>y. map (\<lambda>x.
        if mask_at cur (int (y * width + x)) then True
        else nbr_found width height cur (int x) (int y)) [0..<width]) [0..<height])"

text \<open>Lines 126--151: \<open>gapClose\<close> iterations, then \<^verbatim>\<open>barrier.set(cur)\<close>.\<close>

definition dilate :: "nat \<Rightarrow> nat \<Rightarrow> nat \<Rightarrow> bool list \<Rightarrow> bool list" where
  "dilate width height gapClose barrier = (dilate_pass width height ^^ gapClose) barrier"

text \<open>Lines 154--164: the carve-out, with \<^verbatim>\<open>carveTol = Math.max(tolerance, 24)\<close>.\<close>

definition carve :: "byte list \<Rightarrow> target \<Rightarrow> int \<Rightarrow> bool list \<Rightarrow> bool list" where
  "carve data tgt tolerance barrier =
     fold (\<lambda>p bar. if jle (dist_target data (4 * int p) tgt) (max tolerance 24)
                    then bar[p := False] else bar)
          (pixel_slots data) barrier"

text \<open>What the closures of the scanline loop see and never change.\<close>

record fill_env =
  env_width :: nat
  env_height :: nat
  env_barrier :: "bool list"
  env_target :: target
  env_tolerance :: int
  env_fill :: rgba

text \<open>
  Lines 169--177; \<^verbatim>\<open>i >> 2\<close> is the floor of \<open>i / 4\<close> (indices stay far below
  \<open>2^31\<close>).
\<close>

definition closeEnough :: "fill_env \<Rightarrow> byte list \<Rightarrow> int \<Rightarrow> bool" where
  "closeEnough e data i =
     (if mask_at (env_barrier e) (i div 4) then False
      else jle (dist_target data i (env_target e)) (env_tolerance e))"

text \<open>Line 184: \<^verbatim>\<open>while (lx >= 0 && closeEnough(idx(lx, cy))) lx--\<close>\<close>

function scan_left :: "fill_env \<Rightarrow> byte list \<Rightarrow> int \<Rightarrow> int \<Rightarrow> int" where
  "scan_left e data cy lx =
     (if lx \<ge> 0 \<and> closeEnough e data (idx (env_width e) lx cy)
      then scan_left e data cy (lx - 1) else lx)"
  by pat_completeness auto
termination
  by (relation "measure (\<lambda>(e, data, cy, lx). nat (lx + 1))") auto

text \<open>Line 188: \<^verbatim>\<open>while (rx < width && closeEnough(idx(rx, cy))) rx++\<close>\<close>

function scan_right :: "fill_env \<Rightarrow> byte list \<Rightarrow> int \<Rightarrow> int \<Rightarrow> int" where
  "scan_right e data cy rx =
     (if rx < int (env_width e) \<and> closeEnough e data (idx (env_width e) rx cy)
      then scan_right e data cy (rx + 1) else rx)"
  by pat_completeness auto
termination
  by (relation "measure (\<lambda>(e, data, cy, rx). nat (int (env_width e) - rx))") auto

text \<open>Lines 193--196: the four channel writes of one pixel.\<close>

fun put_pixel :: "byte list \<Rightarrow> int \<Rightarrow> rgba \<Rightarrow> byte list" where
  "put_pixel data di (r, g, b, a) =
     wr (wr (wr (wr data di r) (di + 1) g) (di + 2) b) (di + 3) a"

text \<open>
  Lines 191--202: the span loop from \<open>xx\<close> up to \<open>rx\<close>. The stack is a list whose head is
  its top: \<^verbatim>\<open>push\<close> is \<open>#\<close>.
\<close>

function fill_span ::
  "fill_env \<Rightarrow> int \<Rightarrow> int \<Rightarrow> int \<Rightarrow> byte list \<Rightarrow> (int \<times> int) list
     \<Rightarrow> byte list \<times> (int \<times> int) list" where
  "fill_span e cy rx xx data stack =
     (if xx < rx then
        let di = idx (env_width e) xx cy;
            data1 = put_pixel data di (env_fill e);
            stack1 = (if cy > 0 \<and> closeEnough e data1 (idx (env_width e) xx (cy - 1))
                      then (xx, cy - 1) # stack else stack);
            stack2 = (if cy < int (env_height e) - 1
                         \<and> closeEnough e data1 (idx (env_width e) xx (cy + 1))
                      then (xx, cy + 1) # stack1 else stack1)
        in fill_span e cy rx (xx + 1) data1 stack2
      else (data, stack))"
  by pat_completeness auto
termination
  by (relation "measure (\<lambda>(e, cy, rx, xx, data, stack). nat (rx - xx))") auto

text \<open>Lines 181--202: the body of one iteration of \<^verbatim>\<open>while (stack.length)\<close>.\<close>

definition fill_row ::
  "fill_env \<Rightarrow> int \<Rightarrow> int \<Rightarrow> byte list \<Rightarrow> (int \<times> int) list
     \<Rightarrow> byte list \<times> (int \<times> int) list" where
  "fill_row e cx cy data stack =
     (let lx = scan_left e data cy cx + 1;
          rx = scan_right e data cy cx
      in fill_span e cy rx lx data stack)"

text \<open>
  Lines 179--203: the loop itself. It need not terminate, so its result is an option:
  \<open>None\<close> is a loop that never leaves.
\<close>

partial_function (option) scan_loop ::
  "fill_env \<Rightarrow> byte list \<Rightarrow> (int \<times> int) list \<Rightarrow> byte list option" where
  "scan_loop e data stack =
     (case stack of
        [] \<Rightarrow> Some data
      | c # rest \<Rightarrow>
          (case fill_row e (fst c) (snd c) data rest of
             (data1, stack1) \<Rightarrow> scan_loop e data1 stack1))"

text \<open>
  \<^verbatim>\<open>floodFill(canvasEl, x, y, fillRgba, tolerance, gapClose, bgHex)\<close>, with \<open>bg\<close> the
  value of \<^verbatim>\<open>hexToRgba(bgHex)\<close>. The result is the buffer handed to
  \<^verbatim>\<open>putImageData\<close>, or the unchanged buffer on an early return; \<open>None\<close> is a call that
  never returns. \<open>width\<close>, \<open>height\<close> and \<open>data\<close> are those of the canvas
  (\<^verbatim>\<open>getImageData(0, 0, width, height)\<close>, so \<open>data\<close> has \<open>4 * width * height\<close> bytes);
  a canvas without a 2D context and a failing \<^verbatim>\<open>getImageData\<close> are left out.
\<close>

definition seed_target :: "nat \<Rightarrow> byte list \<Rightarrow> int \<Rightarrow> int \<Rightarrow> target" where
  "seed_target width data x y =
     (let start = idx width x y
      in (rd data start, rd data (start + 1), rd data (start + 2), rd data (start + 3)))"

definition fill_barrier ::
  "nat \<Rightarrow> nat \<Rightarrow> byte list \<Rightarrow> target \<Rightarrow> int \<Rightarrow> nat \<Rightarrow> rgba \<Rightarrow> bool list" where
  "fill_barrier width height data tgt tolerance gapClose bg =
     carve data tgt tolerance (dilate width height gapClose (build_barrier width height data bg))"

definition floodFill ::
  "nat \<Rightarrow> nat \<Rightarrow> byte list \<Rightarrow> int \<Rightarrow> int \<Rightarrow> rgba \<Rightarrow> int \<Rightarrow> nat \<Rightarrow> rgba
     \<Rightarrow> byte list option" where
  "floodFill width height data x y fillRgba tolerance gapClose bg =
     (let start = idx width x y;
          tgt = seed_target width data x y
      in if sameColor tgt fillRgba then Some data
         else
           let barrier = fill_barrier width height data tgt tolerance gapClose bg
           in if mask_at barrier (start div 4) then Some data
              else scan_loop \<lparr> env_width = width, env_height = height, env_barrier = barrier,
                               env_target = tgt, env_tolerance = tolerance,
                               env_fill = fillRgba \<rparr> data [(x, y)])"

declare scan_loop.simps [code]

subsection \<open>Auxiliary notions used in the statements\<close>

text \<open>
  The number of polyline starts the sampling loop emits on a sequence of failure flags,
  given the current value of \<^verbatim>\<open>first\<close>.
\<close>

fun starts :: "bool \<Rightarrow> bool list \<Rightarrow> nat" where
  "starts first [] = 0"
| "starts first (f # fs) =
     (if f then starts True fs else (if first then 1 else 0) + starts False fs)"

text \<open>No two failing samples are adjacent and the last sample does not fail.\<close>

fun gaps_isolated :: "bool list \<Rightarrow> bool" where
  "gaps_isolated [] = True"
| "gaps_isolated [f] = (\<not> f)"
| "gaps_isolated (f # g # fs) = (\<not> (f \<and> g) \<and> gaps_isolated (g # fs))"






text \<open>The double nearest to 1.15, a device pixel ratio.\<close>

definition dpr_115 :: real where
  "dpr_115 = 5179139571476070 / 4503599627370496"

text \<open>
  Concrete inputs. The evaluator of \<^verbatim>\<open>1/x\<close> is infinite at \<open>0\<close> only; the evaluator of
  \<^verbatim>\<open>1/0\<close> is infinite at every sample.
\<close>

definition eval_reciprocal :: "real \<Rightarrow> outcome" where
  "eval_reciprocal x = (if x = 0 then NonFinite else Finite (1 / x))"

definition eval_div_zero :: "real \<Rightarrow> outcome" where
  "eval_div_zero x = NonFinite"

definition white :: rgba where "white = (255, 255, 255, 255)"
definition near_white :: rgba where "near_white = (250, 255, 255, 255)"
definition red :: rgba where "red = (255, 0, 0, 255)"

definition black_px :: "byte list" where
  "black_px = [0, 0, 0, 255]"

definition white2 :: "byte list" where
  "white2 = [255, 255, 255, 255, 255, 255, 255, 255]"

definition black_white :: "byte list" where
  "black_white = [0, 0, 0, 255, 255, 255, 255, 255]"


text \<open>The four channels of the pixel that starts at byte \<open>i\<close>.\<close>

definition pixel_at :: "byte list \<Rightarrow> int \<Rightarrow> target" where
  "pixel_at data i = (rd data i, rd data (i + 1), rd data (i + 2), rd data (i + 3))"

fun bytes_of :: "rgba \<Rightarrow> byte list" where
  "bytes_of (r, g, b, a) = [r, g, b, a]"

text \<open>
  A pixel of colour \<open>c\<close> is not within \<open>tolerance\<close> of the target colour: once recoloured,
  it fails the distance test of \<^verbatim>\<open>closeEnough\<close>.
\<close>

definition fill_outside :: "target \<Rightarrow> int \<Rightarrow> rgba \<Rightarrow> bool" where
  "fill_outside tgt tolerance c = (\<not> jle (dist_target (bytes_of c) 0 tgt) tolerance)"

text \<open>The pixels (by pixel index) that satisfy \<^verbatim>\<open>closeEnough\<close> in the current buffer.\<close>

definition close_pixels :: "fill_env \<Rightarrow> byte list \<Rightarrow> int set" where
  "close_pixels e data = {p. closeEnough e data (4 * p)}"

text \<open>
  Buffers of one or two pixels, and the closure environment and the states of the scanline
  loop for a fill of a white 1 by 2 image with the colour \<open>near_white\<close> at tolerance 24.
\<close>

definition red_px :: "byte list" where
  "red_px = [255, 0, 0, 255]"

definition red2 :: "byte list" where
  "red2 = [255, 0, 0, 255, 255, 0, 0, 255]"

definition nw_w :: "byte list" where
  "nw_w = [250, 255, 255, 255, 255, 255, 255, 255]"

definition nw2 :: "byte list" where
  "nw2 = [250, 255, 255, 255, 250, 255, 255, 255]"

definition stuck_env :: fill_env where
  "stuck_env = \<lparr> env_width = 1, env_height = 2, env_barrier = [False, False],
                 env_target = (Some 255, Some 255, Some 255, Some 255),
                 env_tolerance = 24, env_fill = near_white \<rparr>"

definition stuck_states :: "(byte list \<times> (int \<times> int) list) list" where
  "stuck_states = [(white2, [(0, 0)]), (nw_w, [(0, 1)]), (nw2, [(0, 0)]), (nw2, [(0, 1)])]"

declare scan_left.simps [simp del]
declare scan_right.simps [simp del]
declare fill_span.simps [simp del]

section \<open>Stroke style\<close>

lemma strokeWidth_ge_half: "1 / 2 \<le> strokeWidth w"
  by (simp add: strokeWidth_def)

lemma globalAlpha_nonzero: "v \<noteq> 0 \<Longrightarrow> globalAlpha (Num v) = clamp01 v"
  by (simp add: globalAlpha_def clamp01_def)

text \<open>
  Claim C5. The stroke width is at least 0.5 and the stroke opacity is the supplied
  \<open>lineOpacity\<close> clamped to \<open>[0,1]\<close>; in particular \<open>lineOpacity = 0\<close> gives opacity \<open>0\<close>.
  The code computes \<^verbatim>\<open>lineOpacity || 1\<close> first, so a supplied \<open>0\<close> is stroked with opacity
  \<open>1\<close>, where the clamp gives \<open>0\<close>. The width bound holds.
\<close>

theorem globalAlpha_zero_is_opaque:
  "globalAlpha (Num 0) = 1 \<and> clamp01 0 = 0 \<and> 1 / 2 \<le> strokeWidth (Num 0)"
  by (simp add: globalAlpha_def clamp01_def strokeWidth_def)

section \<open>Resize\<close>

lemma round_even_of_int [simp]: "round_even (of_int k) = k"
  by (simp add: round_even_def)

lemma round_even_ge: "of_int k \<le> r \<Longrightarrow> k \<le> round_even r"
proof -
  assume "of_int k \<le> r"
  then have "k \<le> \<lfloor>r\<rfloor>" by (simp add: le_floor_iff)
  then show ?thesis by (auto simp: round_even_def Let_def)
qed

lemma round_even_le: "r \<le> of_int k \<Longrightarrow> round_even r \<le> k"
proof (cases "r = of_int k")
  case True
  then show ?thesis by simp
next
  case False
  assume "r \<le> of_int k"
  with False have "r < of_int k" by simp
  then have "\<lfloor>r\<rfloor> < k" by (simp add: floor_less_iff)
  then show ?thesis by (auto simp: round_even_def Let_def)
qed

lemma double_round_unit:
  assumes "x \<noteq> 0" "\<bar>x\<bar> < 2 ^ 53"
  shows "\<exists>j::nat. double_round x = of_int (round_even (x * 2 ^ j)) / 2 ^ j"
proof -
  let ?e = "\<lfloor>log 2 \<bar>x\<bar>\<rfloor>"
  have "log 2 \<bar>x\<bar> < 53"
    using assms by (simp add: log_less_iff)
  then have e: "?e \<le> 52" by (simp add: floor_le_iff)
  define j where "j = nat (52 - ?e)"
  have "real_of_int ?e - 52 = - real j" using e by (simp add: j_def)
  then have u: "(2::real) powr (of_int ?e - 52) = 1 / 2 ^ j"
    by (simp only: powr_minus) (simp add: powr_realpow inverse_eq_divide)
  show ?thesis
    using assms(1) by (intro exI [of _ j]) (simp add: double_round_def Let_def u)
qed

lemma double_round_ge_int:
  assumes "\<bar>x\<bar> < 2 ^ 53" "of_int m \<le> x"
  shows "of_int m \<le> double_round x"
proof (cases "x = 0")
  case True
  with assms show ?thesis by (simp add: double_round_def)
next
  case False
  from double_round_unit [OF False assms(1)] obtain j :: nat where
    j: "double_round x = of_int (round_even (x * 2 ^ j)) / 2 ^ j" by blast
  have "of_int (m * 2 ^ j) \<le> x * 2 ^ j" using assms(2) by simp
  then have "m * 2 ^ j \<le> round_even (x * 2 ^ j)" by (rule round_even_ge)
  then have "real_of_int (m * 2 ^ j) \<le> of_int (round_even (x * 2 ^ j))" by linarith
  then show ?thesis by (simp add: j field_simps)
qed

lemma double_round_le_int:
  assumes "\<bar>x\<bar> < 2 ^ 53" "x \<le> of_int m"
  shows "double_round x \<le> of_int m"
proof (cases "x = 0")
  case True
  with assms show ?thesis by (simp add: double_round_def)
next
  case False
  from double_round_unit [OF False assms(1)] obtain j :: nat where
    j: "double_round x = of_int (round_even (x * 2 ^ j)) / 2 ^ j" by blast
  have "x * 2 ^ j \<le> of_int (m * 2 ^ j)" using assms(2) by simp
  then have "round_even (x * 2 ^ j) \<le> m * 2 ^ j" by (rule round_even_le)
  then have "real_of_int (round_even (x * 2 ^ j)) \<le> of_int (m * 2 ^ j)" by linarith
  then show ?thesis by (simp add: j field_simps)
qed

lemma floor_double_round_bounds:
  assumes "\<bar>x\<bar> < 2 ^ 53"
  shows "\<lfloor>x\<rfloor> \<le> \<lfloor>double_round x\<rfloor> \<and> \<lfloor>double_round x\<rfloor> \<le> \<lceil>x\<rceil>"
proof
  have "of_int \<lfloor>x\<rfloor> \<le> double_round x"
    using assms by (rule double_round_ge_int) simp
  then show "\<lfloor>x\<rfloor> \<le> \<lfloor>double_round x\<rfloor>" by (simp add: le_floor_iff)
  have "double_round x \<le> of_int \<lceil>x\<rceil>"
    using assms by (rule double_round_le_int) simp
  then have "\<lfloor>double_round x\<rfloor> \<le> \<lfloor>real_of_int \<lceil>x\<rceil>\<rfloor>" by (rule floor_mono)
  then show "\<lfloor>double_round x\<rfloor> \<le> \<lceil>x\<rceil>" by simp
qed

lemma double_round_eval:
  assumes "2 ^ n \<le> \<bar>x\<bar>" "\<bar>x\<bar> < 2 ^ Suc n" "n \<le> 52"
  shows "double_round x = of_int (round_even (x * 2 ^ (52 - n))) / 2 ^ (52 - n)"
proof -
  have "(0::real) < 2 ^ n" by simp
  with assms(1) have pos: "0 < \<bar>x\<bar>" by linarith
  then have x: "x \<noteq> 0" by simp
  have fl: "\<lfloor>log 2 \<bar>x\<bar>\<rfloor> = int n"
    using assms(1,2) pos
    by (subst floor_log_eq_powr_iff) (simp_all add: powr_realpow powr_add)
  have "real_of_int \<lfloor>log 2 \<bar>x\<bar>\<rfloor> - 52 = - real (52 - n)"
    using assms(3) by (simp add: fl)
  then have "(2::real) powr (of_int \<lfloor>log 2 \<bar>x\<bar>\<rfloor> - 52) = 2 powr (- real (52 - n))"
    by (simp only:)
  also have "\<dots> = 1 / 2 ^ (52 - n)"
    by (simp add: powr_minus powr_realpow inverse_eq_divide)
  finally have "(2::real) powr (of_int \<lfloor>log 2 \<bar>x\<bar>\<rfloor> - 52) = 1 / 2 ^ (52 - n)" .
  with x show ?thesis by (simp add: double_round_def Let_def)
qed

lemma double_round_examples:
  "double_round (303 / 2) = 303 / 2"
  "double_round 75 = 75"
  "double_round (20 * dpr_115) = 23"
  "\<lfloor>double_round (50 * dpr_115)\<rfloor> = 57"
proof -
  show "double_round (303 / 2) = 303 / 2"
    by (subst double_round_eval [where n = 7]) (simp_all add: round_even_def)
  show "double_round 75 = 75"
    by (subst double_round_eval [where n = 6]) (simp_all add: round_even_def)
  show "double_round (20 * dpr_115) = 23"
    unfolding dpr_115_def
    by (subst double_round_eval [where n = 4]) (simp_all add: round_even_def)
  show "\<lfloor>double_round (50 * dpr_115)\<rfloor> = 57"
    unfolding dpr_115_def
    by (subst double_round_eval [where n = 5]) (simp_all add: round_even_def)
qed

text \<open>
  Claim C6 as stated (buffer width is the ceiling of logical width times dpr) fails:
  a logical width of 101 at dpr 1.5 gives 151 pixels, and the ceiling is 152.
\<close>

theorem fitCanvas_not_ceiling:
  "cwidth (fitCanvas 101 50 (Num (3 / 2))) = 151 \<and>
   \<lceil>real_of_int 101 * c_dpr (fitCanvas 101 50 (Num (3 / 2)))\<rceil> = 152 \<and>
   cwidth (fitCanvas 101 50 (Num (3 / 2)))
     \<noteq> \<lceil>real_of_int 101 * c_dpr (fitCanvas 101 50 (Num (3 / 2)))\<rceil>"
  by (simp add: fitCanvas_def effective_dpr_def double_round_examples)

text \<open>
  Claim C6, amended. After a resize the buffer is \<open>floor (fl (logical_width * dpr))\<close> by
  \<open>floor (fl (logical_height * dpr))\<close>, where \<open>fl\<close> rounds the product to the nearest
  double and \<open>dpr = max 1 (devicePixelRatio || 1)\<close>. For products below \<open>2 ^ 53\<close> each
  dimension lies between the floor and the ceiling of the exact product: it is never
  more than the ceiling, and it can be less.
\<close>

theorem fitCanvas_floor:
  "cwidth (fitCanvas w h d)
     = \<lfloor>double_round (real_of_int w * max 1 (or_default d 1))\<rfloor> \<and>
   cheight (fitCanvas w h d)
     = \<lfloor>double_round (real_of_int h * max 1 (or_default d 1))\<rfloor> \<and>
   c_dpr (fitCanvas w h d) = max 1 (or_default d 1) \<and>
   (\<bar>real_of_int w * max 1 (or_default d 1)\<bar> < 2 ^ 53 \<longrightarrow>
      \<lfloor>real_of_int w * max 1 (or_default d 1)\<rfloor> \<le> cwidth (fitCanvas w h d) \<and>
      cwidth (fitCanvas w h d) \<le> \<lceil>real_of_int w * max 1 (or_default d 1)\<rceil>) \<and>
   (\<bar>real_of_int h * max 1 (or_default d 1)\<bar> < 2 ^ 53 \<longrightarrow>
      \<lfloor>real_of_int h * max 1 (or_default d 1)\<rfloor> \<le> cheight (fitCanvas w h d) \<and>
      cheight (fitCanvas w h d) \<le> \<lceil>real_of_int h * max 1 (or_default d 1)\<rceil>)"
  using floor_double_round_bounds [of "real_of_int w * max 1 (or_default d 1)"]
        floor_double_round_bounds [of "real_of_int h * max 1 (or_default d 1)"]
  by (simp add: fitCanvas_def effective_dpr_def Let_def)

text \<open>
  A logical size of 20 by 50 at the double nearest to 1.15: the exact product
  \<open>20 * dpr\<close> lies just below 23 and rounds to 23, so the width is 23, the ceiling; the
  height is 57, the floor.
\<close>

theorem fitCanvas_floor_witness:
  "\<bar>real_of_int 20 * max 1 (or_default (Num dpr_115) 1)\<bar> < 2 ^ 53 \<and>
   \<bar>real_of_int 50 * max 1 (or_default (Num dpr_115) 1)\<bar> < 2 ^ 53 \<and>
   cwidth (fitCanvas 20 50 (Num dpr_115)) = 23 \<and>
   cheight (fitCanvas 20 50 (Num dpr_115)) = 57 \<and>
   c_dpr (fitCanvas 20 50 (Num dpr_115)) = dpr_115 \<and>
   \<lfloor>real_of_int 20 * dpr_115\<rfloor> = 22 \<and> \<lceil>real_of_int 20 * dpr_115\<rceil> = 23 \<and>
   \<lfloor>real_of_int 50 * dpr_115\<rfloor> = 57 \<and> \<lceil>real_of_int 50 * dpr_115\<rceil> = 58"
proof -
  have d: "max 1 (or_default (Num dpr_115) 1) = dpr_115"
    by (simp add: dpr_115_def)
  have fc: "\<lfloor>real_of_int 20 * dpr_115\<rfloor> = 22" "\<lceil>real_of_int 20 * dpr_115\<rceil> = 23"
           "\<lfloor>real_of_int 50 * dpr_115\<rfloor> = 57" "\<lceil>real_of_int 50 * dpr_115\<rceil> = 58"
    by (simp_all add: dpr_115_def)
  have b: "\<bar>real_of_int 20 * dpr_115\<bar> < 2 ^ 53" "\<bar>real_of_int 50 * dpr_115\<bar> < 2 ^ 53"
    by (simp_all add: dpr_115_def)
  from fitCanvas_floor [of 20 50 "Num dpr_115"] d fc b
  show ?thesis by (simp add: double_round_examples)
qed

section \<open>Polyline segments\<close>

lemma moveTo_count_append [simp]:
  "moveTo_count (p @ q) = moveTo_count p + moveTo_count q"
  by (simp add: moveTo_count_def)

lemma fold_plot_step_count:
  "moveTo_count (snd (fold (plot_step ev w h r n) js (first, path))) =
     moveTo_count path + starts first (map (\<lambda>i. failed (ev (sample_x n i))) js)"
proof (induction js arbitrary: first path)
  case Nil
  then show ?case by simp
next
  case (Cons j js)
  show ?case
  proof (cases "ev (sample_x n j)")
    case (Finite y)
    then show ?thesis
      using Cons.IH [of False]
      by (simp add: plot_step_def Let_def moveTo_count_def)
  next
    case NonFinite
    then show ?thesis
      using Cons.IH [of True path] by (simp add: plot_step_def)
  next
    case Threw
    then show ?thesis
      using Cons.IH [of True path] by (simp add: plot_step_def)
  qed
qed

lemma plot_path_count:
  "moveTo_count (plot_path ev w h t) = starts True (sample_failures ev w h t)"
  unfolding plot_path_def sample_failures_def Let_def
  by (simp only: fold_plot_step_count) (simp add: moveTo_count_def)

lemma starts_le: "starts first fs \<le> length (filter id fs) + (if first then 1 else 0)"
proof (induction fs arbitrary: first)
  case Nil
  then show ?case by simp
next
  case (Cons f fs)
  then show ?case
    using Cons.IH [of True] Cons.IH [of False] by auto
qed

lemma starts_isolated:
  "gaps_isolated fs \<Longrightarrow>
     starts False fs = length (filter id fs) \<and>
     (fs \<noteq> [] \<and> \<not> hd fs \<longrightarrow> starts True fs = Suc (length (filter id fs)))"
  by (induction fs rule: gaps_isolated.induct) auto

lemma all_failed_starts: "\<forall>f \<in> set fs. f \<Longrightarrow> starts first fs = 0"
  by (induction fs arbitrary: first) auto

lemma sample_failures_nonempty: "sample_failures ev w h t \<noteq> []"
  by (simp add: sample_failures_def Let_def del: upt_Suc)

lemma steps_200: "steps_of 200 100 (rad_of 0) = 300"
  by (simp add: steps_of_def rad_of_def overscanPx_def rotatedWidth_def)

lemma reciprocal_failures:
  "sample_failures eval_reciprocal 200 100 0 = map (\<lambda>i. i = 150) [0..<301]"
  by (simp add: sample_failures_def steps_200 eval_reciprocal_def sample_x_def xMin_def xMax_def
           del: upt_Suc)

text \<open>
  Claim C3 as stated (polyline starts = failing samples + 1) fails: the expression
  \<^verbatim>\<open>1/0\<close> fails at each of the 301 samples of a 200 by 100 render, and no polyline
  is started at all.
\<close>

theorem moveTo_count_all_nonfinite:
  "moveTo_count (plot_path eval_div_zero 200 100 0) = 0 \<and>
   failure_count eval_div_zero 200 100 0 = 301 \<and>
   moveTo_count (plot_path eval_div_zero 200 100 0)
     \<noteq> failure_count eval_div_zero 200 100 0 + 1"
  by (simp add: plot_path_count all_failed_starts failure_count_def sample_failures_def steps_200
        eval_div_zero_def del: upt_Suc)

text \<open>
  Claim C3, amended. The number of polyline starts is at most the number of failing
  samples plus one, and it is equal to it when the failing samples are isolated and
  interior: the first and the last sample are valid and no two failing samples are
  adjacent.
\<close>

theorem moveTo_count_le_failures:
  "moveTo_count (plot_path ev w h t) \<le> failure_count ev w h t + 1 \<and>
   (\<not> hd (sample_failures ev w h t) \<and> gaps_isolated (sample_failures ev w h t)
      \<longrightarrow> moveTo_count (plot_path ev w h t) = failure_count ev w h t + 1)"
  using starts_le [of True "sample_failures ev w h t"]
        starts_isolated [of "sample_failures ev w h t"]
        sample_failures_nonempty [of ev w h t]
  by (simp add: plot_path_count failure_count_def)

theorem moveTo_count_le_failures_witness:
  "\<not> hd (sample_failures eval_reciprocal 200 100 0) \<and>
   gaps_isolated (sample_failures eval_reciprocal 200 100 0) \<and>
   failure_count eval_reciprocal 200 100 0 = 1 \<and>
   moveTo_count (plot_path eval_reciprocal 200 100 0) = 2"
proof -
  have iso: "\<not> hd (sample_failures eval_reciprocal 200 100 0) \<and>
             gaps_isolated (sample_failures eval_reciprocal 200 100 0)"
    unfolding reciprocal_failures by code_simp
  have one: "failure_count eval_reciprocal 200 100 0 = 1"
    unfolding failure_count_def reciprocal_failures by code_simp
  from moveTo_count_le_failures [of eval_reciprocal 200 100 0] iso one
  show ?thesis by simp
qed

section \<open>Overscan and the pixel mapping\<close>














section \<open>Barrier masks\<close>

lemma length_fold_update:
  "length (fold (\<lambda>p bar. if C p then bar[p := v] else bar) ps bar) = length bar"
  by (induction ps arbitrary: bar) auto

lemma nth_fold_update:
  "q < length bar \<Longrightarrow>
   fold (\<lambda>p bar. if C p then bar[p := v] else bar) ps bar ! q =
     (if q \<in> set ps \<and> C q then v else bar ! q)"
proof (induction ps arbitrary: bar rule: rev_induct)
  case Nil
  then show ?case by simp
next
  case (snoc p ps)
  have len: "q < length (fold (\<lambda>p bar. if C p then bar[p := v] else bar) ps bar)"
    using snoc.prems by (simp add: length_fold_update)
  show ?case
  proof (cases "p = q")
    case True
    with len snoc show ?thesis by simp
  next
    case False
    with len snoc show ?thesis by simp
  qed
qed

lemma length_build_barrier [simp]: "length (build_barrier w h data bg) = w * h"
  by (simp add: build_barrier_def length_fold_update)

lemma length_carve [simp]: "length (carve data tgt tol bar) = length bar"
  by (simp add: carve_def length_fold_update)

lemma length_concat_grid:
  "length (concat (map (\<lambda>y. map (f y) [0..<w]) [0..<h])) = h * w"
  by (induction h) simp_all

lemma nth_concat_grid:
  "x < w \<Longrightarrow> y < h \<Longrightarrow> concat (map (\<lambda>y. map (f y) [0..<w]) [0..<h]) ! (y * w + x) = f y x"
proof (induction h)
  case 0
  then show ?case by simp
next
  case (Suc h)
  show ?case
  proof (cases "y < h")
    case True
    have "y * w + x < Suc y * w" using Suc.prems(1) by simp
    also have "\<dots> \<le> h * w" using True by (intro mult_le_mono1) simp
    finally have "y * w + x < h * w" .
    with Suc True show ?thesis
      by (simp add: nth_append length_concat_grid)
  next
    case False
    with Suc.prems have "y = h" by simp
    with Suc.prems show ?thesis
      by (simp add: nth_append length_concat_grid)
  qed
qed

lemma length_dilate_pass [simp]: "length (dilate_pass w h cur) = w * h"
  by (simp add: dilate_pass_def length_concat_grid mult.commute)

lemma length_dilate [simp]: "length bar = w * h \<Longrightarrow> length (dilate w h r bar) = w * h"
  by (cases r) (simp_all add: dilate_def)

lemma dilate_pass_keeps:
  assumes "mask_at cur p" and "length cur = w * h"
  shows "mask_at (dilate_pass w h cur) p"
proof -
  from assms have pi: "0 \<le> p" "p < int (w * h)" by (simp_all add: mask_at_def)
  then have p: "0 \<le> p" "nat p < w * h" by (simp_all only: nat_less_iff)
  then have w: "0 < w" by (cases w) simp_all
  define x where "x = nat p mod w"
  define y where "y = nat p div w"
  have xy: "x < w" "y < h" "y * w + x = nat p"
    using w p by (simp_all add: x_def y_def less_mult_imp_div_less mult.commute)
  have "dilate_pass w h cur ! (y * w + x) =
          (if mask_at cur (int (y * w + x)) then True
           else nbr_found w h cur (int x) (int y))"
    unfolding dilate_pass_def using xy(1,2) by (rule nth_concat_grid)
  also have "int (y * w + x) = p"
    using xy(3) p(1) by simp
  finally have "dilate_pass w h cur ! nat p"
    using assms(1) xy(3) by simp
  with pi show ?thesis
    by (simp add: mask_at_def del: of_nat_mult)
qed

text \<open>
  Claim C9. For every pixel buffer and background colour, every pixel that is a barrier
  after \<open>r\<close> dilation iterations of the barrier mask (before the carve-out) is a barrier
  after \<open>r + 1\<close> iterations: the set of non-barrier pixels can only shrink.
\<close>

theorem dilate_monotone:
  "mask_at (dilate w h r (build_barrier w h data bg)) p \<Longrightarrow>
   mask_at (dilate w h (Suc r) (build_barrier w h data bg)) p"
proof -
  assume a: "mask_at (dilate w h r (build_barrier w h data bg)) p"
  have "length (dilate w h r (build_barrier w h data bg)) = w * h" by simp
  with a have "mask_at (dilate_pass w h (dilate w h r (build_barrier w h data bg))) p"
    by (rule dilate_pass_keeps)
  then show ?thesis by (simp add: dilate_def)
qed

theorem dilate_monotone_witness:
  "mask_at (dilate 1 2 0 (build_barrier 1 2 black_white white)) 0 \<and>
   mask_at (dilate 1 2 (Suc 0) (build_barrier 1 2 black_white white)) 0 \<and>
   \<not> mask_at (dilate 1 2 0 (build_barrier 1 2 black_white white)) 1 \<and>
   mask_at (dilate 1 2 (Suc 0) (build_barrier 1 2 black_white white)) 1"
proof -
  have a: "mask_at (dilate 1 2 0 (build_barrier 1 2 black_white white)) 0" by code_simp
  have b: "\<not> mask_at (dilate 1 2 0 (build_barrier 1 2 black_white white)) 1" by code_simp
  have c: "mask_at (dilate 1 2 (Suc 0) (build_barrier 1 2 black_white white)) 1" by code_simp
  from a b c dilate_monotone [OF a] show ?thesis by simp
qed

section \<open>Flood fill: the buffer, the seed and the span\<close>

subsection \<open>Reads and writes\<close>

lemma length_wr [simp]: "length (wr data i v) = length data"
  by (simp add: wr_def)

lemma rd_wr:
  "rd (wr data i v) k = (if k = i \<and> 0 \<le> i \<and> i < int (length data) then Some v else rd data k)"
  by (auto simp: rd_def wr_def nat_eq_iff)

lemma length_put_pixel [simp]: "length (put_pixel data i c) = length data"
  by (cases c) simp

lemma seed_target_pixel_at: "seed_target w data x y = pixel_at data (idx w x y)"
  by (simp add: seed_target_def pixel_at_def Let_def)

lemma idx_4: "idx w x y = 4 * (y * int w + x)"
  by (simp add: idx_def)

lemma put_pixel_keeps:
  assumes "sameColor (pixel_at data (4 * b)) c"
  shows "sameColor (pixel_at (put_pixel data (4 * a) c) (4 * b)) c"
proof (cases "a = b")
  case True
  with assms show ?thesis
    by (cases c) (auto simp: pixel_at_def rd_wr)
next
  case False
  then have "4 * b + m \<noteq> 4 * a + n" if "0 \<le> m" "m < 4" "0 \<le> n" "n < 4" for m n :: int
    using that by presburger
  from this [of 0 0] this [of 0 1] this [of 0 2] this [of 0 3]
       this [of 1 0] this [of 1 1] this [of 1 2] this [of 1 3]
       this [of 2 0] this [of 2 1] this [of 2 2] this [of 2 3]
       this [of 3 0] this [of 3 1] this [of 3 2] this [of 3 3] assms
  show ?thesis
    by (cases c) (simp add: pixel_at_def rd_wr)
qed

lemma put_pixel_sets:
  assumes "0 \<le> a" "4 * a + 3 < int (length data)"
  shows "sameColor (pixel_at (put_pixel data (4 * a) c) (4 * a)) c"
  using assms by (cases c) (simp add: pixel_at_def rd_wr)

subsection \<open>Undefined target\<close>

lemma dist_target_None [simp]: "dist_target data i (None, t1, t2, t3) = None"
  by simp

lemma closeEnough_undefined:
  "fst (env_target e) = None \<Longrightarrow> \<not> closeEnough e data i"
  by (cases "env_target e") (simp add: closeEnough_def)

lemma scan_left_stop:
  "\<not> closeEnough e data (idx (env_width e) lx cy) \<Longrightarrow> scan_left e data cy lx = lx"
  by (subst scan_left.simps) simp

lemma scan_right_stop:
  "\<not> closeEnough e data (idx (env_width e) rx cy) \<Longrightarrow> scan_right e data cy rx = rx"
  by (subst scan_right.simps) simp

lemma fill_span_empty: "rx \<le> xx \<Longrightarrow> fill_span e cy rx xx data stack = (data, stack)"
  by (subst fill_span.simps) simp

lemma fill_row_not_close:
  "\<not> closeEnough e data (idx (env_width e) cx cy) \<Longrightarrow> fill_row e cx cy data stack = (data, stack)"
  by (simp add: fill_row_def scan_left_stop scan_right_stop fill_span_empty)

lemma scan_loop_not_close:
  "\<not> closeEnough e data (idx (env_width e) x y) \<Longrightarrow> scan_loop e data [(x, y)] = Some data"
  by (subst scan_loop.simps) (simp add: fill_row_not_close scan_loop.simps [of _ _ "[]"])

lemma rd_outside: "i < 0 \<or> int (length data) \<le> i \<Longrightarrow> rd data i = None"
  by (auto simp: rd_def)

text \<open>
  Claim C10, amended. When the pixel index \<open>y * width + x\<close> of the seed lies outside the
  buffer (below 0 or at least \<open>width * height\<close>), the target colour reads as undefined, no
  pixel passes the carve-out or \<^verbatim>\<open>closeEnough\<close> comparisons, the span at the seed is empty,
  and \<^verbatim>\<open>floodFill\<close> returns with every pixel unchanged. This covers every seed with
  \<open>0 \<le> x < width\<close> and \<open>y < 0\<close> or \<open>y \<ge> height\<close>, but not a seed whose \<open>x\<close> is out of
  its row while the index still falls inside the buffer.
\<close>

theorem floodFill_index_outside:
  assumes "length data = 4 * (w * h)"
  shows "(y * int w + x < 0 \<or> int (w * h) \<le> y * int w + x \<longrightarrow>
            floodFill w h data x y fillRgba tolerance gapClose bg = Some data) \<and>
         (0 \<le> x \<and> x < int w \<and> (y < 0 \<or> int h \<le> y) \<longrightarrow>
            floodFill w h data x y fillRgba tolerance gapClose bg = Some data)"
proof -
  have outside: "floodFill w h data x y fillRgba tolerance gapClose bg = Some data"
    if "y * int w + x < 0 \<or> int (w * h) \<le> y * int w + x"
  proof -
    from assms that have "idx w x y < 0 \<or> int (length data) \<le> idx w x y"
      by (auto simp: idx_def)
    then have "fst (seed_target w data x y) = None"
      by (simp add: seed_target_def Let_def rd_outside)
    then show ?thesis
      by (simp add: floodFill_def Let_def scan_loop_not_close closeEnough_undefined)
  qed
  have rows: "y * int w + x < 0 \<or> int (w * h) \<le> y * int w + x"
    if x: "0 \<le> x" "x < int w" and y: "y < 0 \<or> int h \<le> y"
    using y
  proof
    assume "y < 0"
    then have "y * int w \<le> (- 1) * int w" by (intro mult_right_mono) simp_all
    with x show ?thesis by simp
  next
    assume "int h \<le> y"
    then have "int h * int w \<le> y * int w" by (intro mult_right_mono) simp_all
    then have "int (w * h) \<le> y * int w" by (simp only: of_nat_mult mult.commute)
    with x show ?thesis by linarith
  qed
  from outside rows show ?thesis by blast
qed

subsection \<open>The seed after the carve-out\<close>

lemma dist_target_self:
  assumes "0 \<le> i" "i + 3 < int (length data)"
  shows "dist_target data i (pixel_at data i) = Some 0"
  using assms by (simp add: pixel_at_def rd_def)

lemma carve_nth:
  "q < length bar \<Longrightarrow>
   carve data tgt tol bar ! q =
     (if q \<in> set (pixel_slots data) \<and> jle (dist_target data (4 * int q) tgt) (max tol 24)
      then False else bar ! q)"
  unfolding carve_def by (rule nth_fold_update)

lemma seed_index:
  assumes "0 \<le> x" "x < int w" "0 \<le> y" "y < int h"
  shows "0 \<le> y * int w + x" "y * int w + x < int (w * h)"
proof -
  show "0 \<le> y * int w + x" using assms by simp
  have "y * int w + x < y * int w + int w" using assms by simp
  also have "\<dots> = (y + 1) * int w" by (simp add: algebra_simps)
  also have "\<dots> \<le> int h * int w" using assms by (intro mult_right_mono) simp_all
  finally show "y * int w + x < int (w * h)" by (simp add: mult.commute)
qed

lemma seed_not_barrier:
  assumes wf: "length data = 4 * (w * h)"
      and inb: "0 \<le> x" "x < int w" "0 \<le> y" "y < int h"
  shows "\<not> mask_at (fill_barrier w h data (seed_target w data x y) tol gap bg) (idx w x y div 4)"
proof -
  define p where "p = y * int w + x"
  have p: "0 \<le> p" "p < int (w * h)" using seed_index [OF inb] by (simp_all add: p_def)
  have i: "idx w x y = 4 * p" by (simp add: idx_def p_def)
  have np: "nat p < w * h" using p by (simp only: nat_less_iff)
  have slot: "nat p \<in> set (pixel_slots data)"
    using np wf by (simp add: pixel_slots_def)
  have "4 * p + 3 < int (length data)" using p wf by simp
  with p have d: "dist_target data (4 * p) (pixel_at data (4 * p)) = Some 0"
    by (intro dist_target_self) simp_all
  have len: "length (dilate w h gap (build_barrier w h data bg)) = w * h" by simp
  have "jle (dist_target data (4 * int (nat p)) (pixel_at data (4 * p))) (max tol 24)"
    using d p by (simp add: le_max_iff_disj)
  with slot
  have "\<not> carve data (pixel_at data (4 * p)) tol (dilate w h gap (build_barrier w h data bg)) ! nat p"
    using np len by (subst carve_nth) simp_all
  then show ?thesis
    using p by (simp add: fill_barrier_def seed_target_pixel_at i mask_at_def)
qed








subsection \<open>The span\<close>

lemma scan_left_le: "scan_left e data cy lx \<le> lx"
proof (induction e data cy lx rule: scan_left.induct)
  case (1 e data cy lx)
  then show ?case
    by (subst scan_left.simps) auto
qed

lemma scan_left_less:
  "0 \<le> lx \<Longrightarrow> closeEnough e data (idx (env_width e) lx cy) \<Longrightarrow> scan_left e data cy lx < lx"
  using scan_left_le [of e data cy "lx - 1"]
  by (subst scan_left.simps) simp

lemma scan_right_ge: "rx \<le> scan_right e data cy rx"
proof (induction e data cy rx rule: scan_right.induct)
  case (1 e data cy rx)
  then show ?case
    by (subst scan_right.simps) auto
qed

lemma scan_right_greater:
  "rx < int (env_width e) \<Longrightarrow> closeEnough e data (idx (env_width e) rx cy)
     \<Longrightarrow> rx < scan_right e data cy rx"
  using scan_right_ge [of "rx + 1" e data cy]
  by (subst scan_right.simps) simp

lemma length_fill_span [simp]: "length (fst (fill_span e cy rx xx data stack)) = length data"
proof (induction e cy rx xx data stack rule: fill_span.induct)
  case (1 e cy rx xx data stack)
  show ?case
  proof (cases "xx < rx")
    case True
    with 1 [OF True refl refl refl refl] show ?thesis
      by (subst fill_span.simps) (simp add: Let_def)
  next
    case False
    then show ?thesis by (simp add: fill_span_empty)
  qed
qed

lemma fill_span_keeps:
  "sameColor (pixel_at data (4 * b)) (env_fill e) \<Longrightarrow>
   sameColor (pixel_at (fst (fill_span e cy rx xx data stack)) (4 * b)) (env_fill e)"
proof (induction e cy rx xx data stack rule: fill_span.induct)
  case (1 e cy rx xx data stack)
  show ?case
  proof (cases "xx < rx")
    case True
    have "sameColor (pixel_at (put_pixel data (idx (env_width e) xx cy) (env_fill e)) (4 * b))
            (env_fill e)"
      unfolding idx_4 using "1.prems" by (rule put_pixel_keeps)
    from 1(1) [OF True refl refl refl refl this] True show ?thesis
      by (subst fill_span.simps) (simp add: Let_def)
  next
    case False
    with 1 show ?thesis by (simp add: fill_span_empty)
  qed
qed

lemma fill_span_step:
  "xx < rx \<Longrightarrow>
   \<exists>stack2. fill_span e cy rx xx data stack =
     fill_span e cy rx (xx + 1) (put_pixel data (idx (env_width e) xx cy) (env_fill e)) stack2"
  by (subst fill_span.simps) (auto simp: Let_def)

lemma fill_span_hits:
  "xx \<le> cx \<Longrightarrow> cx < rx \<Longrightarrow> 0 \<le> idx (env_width e) cx cy
   \<Longrightarrow> idx (env_width e) cx cy + 3 < int (length data) \<Longrightarrow>
   sameColor (pixel_at (fst (fill_span e cy rx xx data stack)) (idx (env_width e) cx cy))
     (env_fill e)"
proof (induction e cy rx xx data stack rule: fill_span.induct)
  case (1 e cy rx xx data stack)
  from 1(2,3) have lt: "xx < rx" by simp
  let ?d1 = "put_pixel data (idx (env_width e) xx cy) (env_fill e)"
  show ?case
  proof (cases "xx = cx")
    case True
    have "sameColor (pixel_at ?d1 (idx (env_width e) cx cy)) (env_fill e)"
      unfolding True idx_4 using 1(4,5) by (intro put_pixel_sets) (simp_all add: idx_4)
    then have "sameColor (pixel_at (fst (fill_span e cy rx (xx + 1) ?d1 st))
                 (idx (env_width e) cx cy)) (env_fill e)" for st
      unfolding idx_4 [of _ cx] by (rule fill_span_keeps)
    with fill_span_step [OF lt, of e cy data stack] show ?thesis
      by auto
  next
    case False
    with 1(2) have "xx + 1 \<le> cx" by simp
    from 1(1) [OF lt refl refl refl refl this 1(3)] 1(4,5) lt show ?thesis
      by (subst fill_span.simps) (simp add: Let_def)
  qed
qed

lemma dist_target_defined:
  "dist_target data i tgt = Some d \<Longrightarrow> 0 \<le> i \<and> i + 3 < int (length data)"
  by (cases tgt) (auto simp: rd_def split: if_splits elim!: jadd.elims jabs.elims jsub.elims)

lemma closeEnough_in_range:
  "closeEnough e data i \<Longrightarrow> 0 \<le> i \<and> i + 3 < int (length data)"
  by (cases "dist_target data i (env_target e)")
     (auto simp: closeEnough_def dest: dist_target_defined split: if_splits)

lemma fill_row_hits:
  assumes "closeEnough e data (idx (env_width e) cx cy)" "0 \<le> cx" "cx < int (env_width e)"
  shows "sameColor (pixel_at (fst (fill_row e cx cy data stack)) (idx (env_width e) cx cy))
           (env_fill e)"
proof -
  from closeEnough_in_range [OF assms(1)]
  have r: "0 \<le> idx (env_width e) cx cy" "idx (env_width e) cx cy + 3 < int (length data)"
    by simp_all
  have "scan_left e data cy cx + 1 \<le> cx" using scan_left_less [OF assms(2,1)] by simp
  moreover have "cx < scan_right e data cy cx" using scan_right_greater [OF assms(3,1)] .
  ultimately show ?thesis
    unfolding fill_row_def Let_def using r by (rule fill_span_hits)
qed

lemma fill_row_keeps:
  "sameColor (pixel_at data (4 * b)) (env_fill e) \<Longrightarrow>
   sameColor (pixel_at (fst (fill_row e cx cy data stack)) (4 * b)) (env_fill e)"
  by (simp add: fill_row_def Let_def fill_span_keeps)

lemma length_fill_row [simp]: "length (fst (fill_row e cx cy data stack)) = length data"
  by (simp add: fill_row_def Let_def)

subsection \<open>The loop\<close>

lemma scan_loop_keeps:
  assumes "scan_loop e data stack = Some d'"
      and "sameColor (pixel_at data (4 * b)) (env_fill e)"
  shows "sameColor (pixel_at d' (4 * b)) (env_fill e)"
proof -
  have "sameColor (pixel_at data (4 * b)) (env_fill e) \<longrightarrow>
        sameColor (pixel_at d' (4 * b)) (env_fill e)"
  proof (rule scan_loop.raw_induct
      [where P = "\<lambda>e data stack d'. sameColor (pixel_at data (4 * b)) (env_fill e) \<longrightarrow>
                    sameColor (pixel_at d' (4 * b)) (env_fill e)", OF _ assms(1)])
    fix loop :: "fill_env \<Rightarrow> byte list \<Rightarrow> (int \<times> int) list \<Rightarrow> byte list option"
    fix e data stack d'
    assume IH: "\<And>e data stack d'. loop e data stack = Some d' \<Longrightarrow>
                  sameColor (pixel_at data (4 * b)) (env_fill e) \<longrightarrow>
                  sameColor (pixel_at d' (4 * b)) (env_fill e)"
      and eq: "(case stack of [] \<Rightarrow> Some data
               | c # rest \<Rightarrow> (case fill_row e (fst c) (snd c) data rest of
                               (data1, stack1) \<Rightarrow> loop e data1 stack1)) = Some d'"
    show "sameColor (pixel_at data (4 * b)) (env_fill e) \<longrightarrow>
          sameColor (pixel_at d' (4 * b)) (env_fill e)"
    proof (cases stack)
      case Nil
      with eq show ?thesis by simp
    next
      case (Cons c rest)
      obtain data1 stack1 where fr: "fill_row e (fst c) (snd c) data rest = (data1, stack1)"
        by (cases "fill_row e (fst c) (snd c) data rest")
      with eq Cons have "loop e data1 stack1 = Some d'" by simp
      from IH [OF this] fill_row_keeps [of data b e "fst c" "snd c" rest] fr
      show ?thesis by simp
    qed
  qed
  with assms(2) show ?thesis by simp
qed

lemma scan_loop_length:
  assumes "scan_loop e data stack = Some d'"
  shows "length d' = length data"
proof (rule scan_loop.raw_induct
    [where P = "\<lambda>e data stack d'. length d' = length data", OF _ assms])
  fix loop :: "fill_env \<Rightarrow> byte list \<Rightarrow> (int \<times> int) list \<Rightarrow> byte list option"
  fix e data stack d'
  assume IH: "\<And>e data stack d'. loop e data stack = Some d' \<Longrightarrow> length d' = length data"
    and eq: "(case stack of [] \<Rightarrow> Some data
             | c # rest \<Rightarrow> (case fill_row e (fst c) (snd c) data rest of
                             (data1, stack1) \<Rightarrow> loop e data1 stack1)) = Some d'"
  show "length d' = length data"
  proof (cases stack)
    case Nil
    with eq show ?thesis by simp
  next
    case (Cons c rest)
    obtain data1 stack1 where fr: "fill_row e (fst c) (snd c) data rest = (data1, stack1)"
      by (cases "fill_row e (fst c) (snd c) data rest")
    with eq Cons have "loop e data1 stack1 = Some d'" by simp
    from IH [OF this] length_fill_row [of e "fst c" "snd c" data rest] fr
    show ?thesis by simp
  qed
qed

lemma scan_loop_seed:
  assumes run: "scan_loop e data [(x, y)] = Some d'"
      and ce: "closeEnough e data (idx (env_width e) x y)"
      and x: "0 \<le> x" "x < int (env_width e)"
  shows "sameColor (pixel_at d' (idx (env_width e) x y)) (env_fill e)"
proof -
  obtain data1 stack1 where fr: "fill_row e x y data [] = (data1, stack1)"
    by (cases "fill_row e x y data []")
  with run have "scan_loop e data1 stack1 = Some d'"
    by (subst (asm) scan_loop.simps) simp
  moreover have "sameColor (pixel_at data1 (4 * (y * int (env_width e) + x))) (env_fill e)"
    using fill_row_hits [OF ce x, of "[]"] fr by (simp add: idx_4)
  ultimately show ?thesis
    unfolding idx_4 by (rule scan_loop_keeps)
qed

section \<open>Flood fill: termination\<close>

lemma dist_target_fill:
  "sameColor (pixel_at data i) c \<Longrightarrow> dist_target data i tgt = dist_target (bytes_of c) 0 tgt"
  by (cases c; cases tgt) (simp add: pixel_at_def rd_def)

lemma dist_target_cong:
  "pixel_at d1 i = pixel_at d2 i \<Longrightarrow> dist_target d1 i tgt = dist_target d2 i tgt"
  by (cases tgt) (simp add: pixel_at_def)

lemma put_pixel_other:
  assumes "a \<noteq> b"
  shows "pixel_at (put_pixel data (4 * a) c) (4 * b) = pixel_at data (4 * b)"
proof -
  from assms have "4 * b + m \<noteq> 4 * a + n" if "0 \<le> m" "m < 4" "0 \<le> n" "n < 4" for m n :: int
    using that by presburger
  from this [of 0 0] this [of 0 1] this [of 0 2] this [of 0 3]
       this [of 1 0] this [of 1 1] this [of 1 2] this [of 1 3]
       this [of 2 0] this [of 2 1] this [of 2 2] this [of 2 3]
       this [of 3 0] this [of 3 1] this [of 3 2] this [of 3 3]
  show ?thesis
    by (cases c) (simp add: pixel_at_def rd_wr)
qed

lemma closeEnough_jle:
  "closeEnough e data i \<Longrightarrow> jle (dist_target data i (env_target e)) (env_tolerance e)"
  by (simp add: closeEnough_def split: if_splits)

lemma put_pixel_close:
  assumes out: "fill_outside (env_target e) (env_tolerance e) (env_fill e)"
  shows "close_pixels e (put_pixel data (4 * a) (env_fill e)) \<subseteq> close_pixels e data - {a}"
proof
  fix p
  assume "p \<in> close_pixels e (put_pixel data (4 * a) (env_fill e))"
  then have ce: "closeEnough e (put_pixel data (4 * a) (env_fill e)) (4 * p)"
    by (simp add: close_pixels_def)
  show "p \<in> close_pixels e data - {a}"
  proof (cases "p = a")
    case True
    from closeEnough_in_range [OF ce] True
    have "0 \<le> a" "4 * a + 3 < int (length data)" by simp_all
    then have "sameColor (pixel_at (put_pixel data (4 * a) (env_fill e)) (4 * a)) (env_fill e)"
      by (rule put_pixel_sets)
    from dist_target_fill [OF this, of "env_target e"] closeEnough_jle [OF ce] True out
    show ?thesis by (simp add: fill_outside_def)
  next
    case False
    then have "pixel_at (put_pixel data (4 * a) (env_fill e)) (4 * p) = pixel_at data (4 * p)"
      by (intro put_pixel_other) simp
    from dist_target_cong [OF this, of "env_target e"] ce False show ?thesis
      by (auto simp: close_pixels_def closeEnough_def split: if_splits)
  qed
qed

lemma finite_close_pixels [simp]: "finite (close_pixels e data)"
proof (rule finite_subset)
  show "close_pixels e data \<subseteq> {0..int (length data)}"
    using closeEnough_in_range by (fastforce simp: close_pixels_def)
qed simp

lemma fill_span_close:
  assumes out: "fill_outside (env_target e) (env_tolerance e) (env_fill e)"
  shows "close_pixels e (fst (fill_span e cy rx xx data stack))
           \<subseteq> close_pixels e data - (if xx < rx then {idx (env_width e) xx cy div 4} else {})"
proof (induction "nat (rx - xx)" arbitrary: xx data stack)
  case 0
  then have "rx \<le> xx" by simp
  then show ?case by (simp add: fill_span_empty)
next
  case (Suc n)
  then have lt: "xx < rx" and n: "n = nat (rx - (xx + 1))" by simp_all
  let ?d1 = "put_pixel data (idx (env_width e) xx cy) (env_fill e)"
  from fill_span_step [OF lt, of e cy data stack] obtain stack2 where
    st: "fill_span e cy rx xx data stack = fill_span e cy rx (xx + 1) ?d1 stack2"
    by blast
  from Suc.hyps(1) [OF n, of ?d1 stack2]
  have "close_pixels e (fst (fill_span e cy rx (xx + 1) ?d1 stack2)) \<subseteq> close_pixels e ?d1"
    by auto
  also have "\<dots> \<subseteq> close_pixels e data - {idx (env_width e) xx cy div 4}"
    using put_pixel_close [OF out, of data "idx (env_width e) xx cy div 4"]
    by (simp add: idx_4)
  finally show ?case using lt st by simp
qed

subsection \<open>What the scans pass over\<close>

lemma scan_left_all:
  "scan_left e data cy lx < k \<Longrightarrow> k \<le> lx \<Longrightarrow> closeEnough e data (idx (env_width e) k cy)"
proof (induction e data cy lx rule: scan_left.induct)
  case (1 e data cy lx)
  show ?case
  proof (cases "0 \<le> lx \<and> closeEnough e data (idx (env_width e) lx cy)")
    case True
    show ?thesis
    proof (cases "k = lx")
      case True
      with \<open>0 \<le> lx \<and> closeEnough e data (idx (env_width e) lx cy)\<close> show ?thesis by simp
    next
      case False
      with 1(3) have "k \<le> lx - 1" by simp
      moreover from 1(2) True have "scan_left e data cy (lx - 1) < k"
        by (subst (asm) scan_left.simps) simp
      ultimately show ?thesis using 1(1) True by blast
    qed
  next
    case False
    with 1(2) have "lx < k" by (subst (asm) scan_left.simps) auto
    with 1(3) show ?thesis by simp
  qed
qed

lemma scan_right_all:
  "rx \<le> k \<Longrightarrow> k < scan_right e data cy rx \<Longrightarrow> closeEnough e data (idx (env_width e) k cy)"
proof (induction e data cy rx rule: scan_right.induct)
  case (1 e data cy rx)
  show ?case
  proof (cases "rx < int (env_width e) \<and> closeEnough e data (idx (env_width e) rx cy)")
    case True
    show ?thesis
    proof (cases "k = rx")
      case True
      with \<open>rx < int (env_width e) \<and> closeEnough e data (idx (env_width e) rx cy)\<close>
      show ?thesis by simp
    next
      case False
      with 1(2) have "rx + 1 \<le> k" by simp
      moreover from 1(3) True have "k < scan_right e data cy (rx + 1)"
        by (subst (asm) scan_right.simps) simp
      ultimately show ?thesis using 1(1) True by blast
    qed
  next
    case False
    with 1(3) have "k < rx" by (subst (asm) scan_right.simps) auto
    with 1(2) show ?thesis by simp
  qed
qed

lemma span_start_close:
  assumes "scan_left e data cy cx + 1 < scan_right e data cy cx"
  shows "closeEnough e data (idx (env_width e) (scan_left e data cy cx + 1) cy)"
proof (cases "scan_left e data cy cx + 1 \<le> cx")
  case True
  then show ?thesis by (intro scan_left_all) simp_all
next
  case False
  with scan_left_le [of e data cy cx] have "scan_left e data cy cx = cx" by simp
  with assms show ?thesis by (intro scan_right_all) simp_all
qed

lemma fill_row_progress:
  assumes out: "fill_outside (env_target e) (env_tolerance e) (env_fill e)"
  shows "fill_row e cx cy data stack = (data, stack) \<or>
         close_pixels e (fst (fill_row e cx cy data stack)) \<subset> close_pixels e data"
proof (cases "scan_left e data cy cx + 1 < scan_right e data cy cx")
  case True
  let ?lx = "scan_left e data cy cx + 1"
  from span_start_close [OF True]
  have "idx (env_width e) ?lx cy div 4 \<in> close_pixels e data"
    by (simp add: close_pixels_def idx_4)
  moreover from fill_span_close [OF out, of cy "scan_right e data cy cx" ?lx data stack] True
  have "close_pixels e (fst (fill_row e cx cy data stack))
          \<subseteq> close_pixels e data - {idx (env_width e) ?lx cy div 4}"
    by (simp add: fill_row_def Let_def)
  ultimately show ?thesis by blast
next
  case False
  then show ?thesis by (simp add: fill_row_def Let_def fill_span_empty)
qed

lemma scan_loop_terminates:
  assumes out: "fill_outside (env_target e) (env_tolerance e) (env_fill e)"
  shows "\<exists>d'. scan_loop e data stack = Some d'"
proof -
  define R where "R = inv_image (less_than <*lex*> less_than)
                        (\<lambda>(d, s :: (int \<times> int) list). (card (close_pixels e d), length s))"
  have "wf R" unfolding R_def by (intro wf_inv_image wf_lex_prod wf_less_than)
  then show ?thesis
  proof (induction "(data, stack)" arbitrary: data stack rule: wf_induct_rule)
    case less
    show ?case
    proof (cases stack)
      case Nil
      then show ?thesis by (subst scan_loop.simps) simp
    next
      case (Cons c rest)
      obtain data1 stack1 where fr: "fill_row e (fst c) (snd c) data rest = (data1, stack1)"
        by (cases "fill_row e (fst c) (snd c) data rest")
      from fill_row_progress [OF out, of "fst c" "snd c" data rest] fr
      have "(data1 = data \<and> stack1 = rest) \<or> close_pixels e data1 \<subset> close_pixels e data"
        by auto
      then have "((data1, stack1), (data, stack)) \<in> R"
      proof
        assume "data1 = data \<and> stack1 = rest"
        with Cons show ?thesis by (simp add: R_def)
      next
        assume "close_pixels e data1 \<subset> close_pixels e data"
        then have "card (close_pixels e data1) < card (close_pixels e data)"
          by (intro psubset_card_mono) simp_all
        then show ?thesis by (simp add: R_def)
      qed
      from less [OF this] fr Cons show ?thesis
        by (subst scan_loop.simps) simp
    qed
  qed
qed

section \<open>Flood fill: a fill that never returns\<close>

lemma stuck_steps:
  "fill_row stuck_env 0 0 white2 [] = (nw_w, [(0, 1)])"
  "fill_row stuck_env 0 1 nw_w [] = (nw2, [(0, 0)])"
  "fill_row stuck_env 0 0 nw2 [] = (nw2, [(0, 1)])"
  "fill_row stuck_env 0 1 nw2 [] = (nw2, [(0, 0)])"
  by code_simp+

lemma stuck_loop:
  assumes "(data, stack) \<in> set stuck_states"
  shows "scan_loop stuck_env data stack = None"
proof (rule ccontr)
  assume "scan_loop stuck_env data stack \<noteq> None"
  then obtain d' where run: "scan_loop stuck_env data stack = Some d'" by auto
  have "\<not> (e = stuck_env \<and> (data, stack) \<in> set stuck_states)"
    if "scan_loop e data stack = Some d'" for e data stack d'
  proof (rule scan_loop.raw_induct
      [where P = "\<lambda>e data stack d'. \<not> (e = stuck_env \<and> (data, stack) \<in> set stuck_states)",
       OF _ that])
    fix loop :: "fill_env \<Rightarrow> byte list \<Rightarrow> (int \<times> int) list \<Rightarrow> byte list option"
    fix e data stack d'
    assume IH: "\<And>e data stack d'. loop e data stack = Some d' \<Longrightarrow>
                  \<not> (e = stuck_env \<and> (data, stack) \<in> set stuck_states)"
      and eq: "(case stack of [] \<Rightarrow> Some data
               | c # rest \<Rightarrow> (case fill_row e (fst c) (snd c) data rest of
                               (data1, stack1) \<Rightarrow> loop e data1 stack1)) = Some d'"
    show "\<not> (e = stuck_env \<and> (data, stack) \<in> set stuck_states)"
    proof
      assume a: "e = stuck_env \<and> (data, stack) \<in> set stuck_states"
      then consider "data = white2" "stack = [(0, 0)]" | "data = nw_w" "stack = [(0, 1)]"
        | "data = nw2" "stack = [(0, 0)]" | "data = nw2" "stack = [(0, 1)]"
        by (auto simp: stuck_states_def)
      then show False
      proof cases
        case 1
        with eq a have "loop stuck_env nw_w [(0, 1)] = Some d'" by (simp add: stuck_steps)
        from IH [OF this] show False by (simp add: stuck_states_def)
      next
        case 2
        with eq a have "loop stuck_env nw2 [(0, 0)] = Some d'" by (simp add: stuck_steps)
        from IH [OF this] show False by (simp add: stuck_states_def)
      next
        case 3
        with eq a have "loop stuck_env nw2 [(0, 1)] = Some d'" by (simp add: stuck_steps)
        from IH [OF this] show False by (simp add: stuck_states_def)
      next
        case 4
        with eq a have "loop stuck_env nw2 [(0, 0)] = Some d'" by (simp add: stuck_steps)
        from IH [OF this] show False by (simp add: stuck_states_def)
      qed
    qed
  qed
  from this [OF run] assms show False by simp
qed

lemma stuck_setup:
  "seed_target 1 white2 0 0 = (Some 255, Some 255, Some 255, Some 255)"
  "fill_barrier 1 2 white2 (Some 255, Some 255, Some 255, Some 255) 24 1 white = [False, False]"
  "\<not> sameColor (Some 255, Some 255, Some 255, Some 255) near_white"
  "\<not> mask_at [False, False] (idx 1 0 0 div 4)"
  by code_simp+

lemma floodFill_stuck: "floodFill 1 2 white2 0 0 near_white 24 1 white = None"
proof -
  have "floodFill 1 2 white2 0 0 near_white 24 1 white = scan_loop stuck_env white2 [(0, 0)]"
    by (simp only: floodFill_def Let_def stuck_setup if_False stuck_env_def)
  moreover have "scan_loop stuck_env white2 [(0, 0)] = None"
    by (rule stuck_loop) (simp add: stuck_states_def)
  ultimately show ?thesis by simp
qed

text \<open>
  Claim C2. With a fill colour different from the target colour the scanline loop is
  claimed to terminate, a recoloured pixel no longer passing \<^verbatim>\<open>closeEnough\<close>. On a
  white image of width 1 and height 2, seed \<open>(0,0)\<close>, fill colour \<open>(250,255,255,255)\<close> and
  tolerance 24, the fill colour differs from the target but is within tolerance of it:
  the two pixels keep pushing each other and the loop never returns.
\<close>

theorem floodFill_near_white_never_returns:
  "\<not> sameColor (seed_target 1 white2 0 0) near_white \<and>
   floodFill 1 2 white2 0 0 near_white 24 1 white = None"
  using floodFill_stuck by (simp only: stuck_setup) simp

text \<open>
  Claim C8. Applying \<^verbatim>\<open>floodFill\<close> twice with the same arguments is claimed to change the
  buffer on the first application only, for every in-bounds seed, fill colour and
  tolerance. On the white image of width 1 and height 2, seed \<open>(0,0)\<close>, fill colour
  \<open>(250,255,255,255)\<close> and tolerance 24, the first application never returns, so there is
  no buffer on which a second application is a no-op.
\<close>

theorem floodFill_twice_never_returns:
  "\<not> (\<exists>d'. floodFill 1 2 white2 0 0 near_white 24 1 white = Some d' \<and>
            floodFill 1 2 d' 0 0 near_white 24 1 white = Some d')"
  using floodFill_stuck by simp

section \<open>Flood fill: idempotence and the seed pixel\<close>

lemma floodFill_terminates:
  assumes "fill_outside (seed_target w data x y) tol fill"
  shows "\<exists>d'. floodFill w h data x y fill tol gap bg = Some d'"
proof -
  let ?e = "\<lparr> env_width = w, env_height = h,
              env_barrier = fill_barrier w h data (seed_target w data x y) tol gap bg,
              env_target = seed_target w data x y, env_tolerance = tol, env_fill = fill \<rparr>"
  have "fill_outside (env_target ?e) (env_tolerance ?e) (env_fill ?e)"
    using assms by simp
  from scan_loop_terminates [OF this, of data "[(x, y)]"] show ?thesis
    by (auto simp: floodFill_def Let_def)
qed

lemma floodFill_cases:
  assumes "floodFill w h data x y fill tol gap bg = Some d'"
  shows "d' = data \<or>
         (\<not> sameColor (seed_target w data x y) fill \<and>
          scan_loop \<lparr> env_width = w, env_height = h,
              env_barrier = fill_barrier w h data (seed_target w data x y) tol gap bg,
              env_target = seed_target w data x y, env_tolerance = tol, env_fill = fill \<rparr>
            data [(x, y)] = Some d')"
  using assms by (auto simp: floodFill_def Let_def split: if_splits)

lemma floodFill_same_colour:
  "sameColor (seed_target w data x y) fill \<Longrightarrow> floodFill w h data x y fill tol gap bg = Some data"
  by (simp add: floodFill_def Let_def)

lemma floodFill_seed:
  assumes run: "floodFill w h data x y fill tol gap bg = Some d'"
      and x: "0 \<le> x" "x < int w"
  shows "d' = data \<or> sameColor (seed_target w d' x y) fill"
proof -
  let ?e = "\<lparr> env_width = w, env_height = h,
              env_barrier = fill_barrier w h data (seed_target w data x y) tol gap bg,
              env_target = seed_target w data x y, env_tolerance = tol, env_fill = fill \<rparr>"
  from floodFill_cases [OF run] show ?thesis
  proof
    assume "d' = data"
    then show ?thesis ..
  next
    assume a: "\<not> sameColor (seed_target w data x y) fill \<and> scan_loop ?e data [(x, y)] = Some d'"
    show ?thesis
    proof (cases "closeEnough ?e data (idx w x y)")
      case True
      from a have "scan_loop ?e data [(x, y)] = Some d'" ..
      from scan_loop_seed [OF this] True x show ?thesis
        by (simp add: seed_target_pixel_at)
    next
      case False
      then have "scan_loop ?e data [(x, y)] = Some data"
        using scan_loop_not_close [of ?e data x y] by simp
      with a show ?thesis by simp
    qed
  qed
qed

text \<open>
  For a seed inside its row, whenever \<^verbatim>\<open>floodFill\<close> returns a buffer, a second
  application with the same arguments returns that buffer unchanged: either the first
  application changed nothing, or the seed pixel now has the fill colour and the second
  application leaves at the first test. Both applications return when the fill colour is
  farther than the tolerance from the target colour.
\<close>

lemma floodFill_idempotent:
  assumes "0 \<le> x" "x < int w"
  shows "(floodFill w h data x y fill tol gap bg = Some d' \<longrightarrow>
            floodFill w h d' x y fill tol gap bg = Some d' \<and>
            (d' = data \<or> sameColor (seed_target w d' x y) fill)) \<and>
         (fill_outside (seed_target w data x y) tol fill \<longrightarrow>
            (\<exists>d1. floodFill w h data x y fill tol gap bg = Some d1 \<and>
                  floodFill w h d1 x y fill tol gap bg = Some d1))"
proof -
  have idem: "floodFill w h d x y fill tol gap bg = Some d"
    if "floodFill w h data x y fill tol gap bg = Some d" for d
    using floodFill_seed [OF that assms] that
    by (auto simp: floodFill_same_colour)
  show ?thesis
    using idem floodFill_seed [OF _ assms] floodFill_terminates [of w data x y tol fill h gap bg]
    by blast
qed

text \<open>
  A white image of width 1 and height 2 filled with red at \<open>(0,0)\<close>: the first application
  recolours both pixels, the second changes nothing.
\<close>

lemma floodFill_idempotent_example:
  "floodFill 1 2 white2 0 0 red 24 1 white = Some red2 \<and>
   floodFill 1 2 red2 0 0 red 24 1 white = Some red2 \<and>
   red2 \<noteq> white2 \<and>
   sameColor (seed_target 1 red2 0 0) red \<and>
   fill_outside (seed_target 1 white2 0 0) 24 red"
proof -
  have run: "floodFill 1 2 white2 0 0 red 24 1 white = Some red2" by code_simp
  have out: "fill_outside (seed_target 1 white2 0 0) 24 red" by code_simp
  have ne: "red2 \<noteq> white2" by code_simp
  from floodFill_idempotent [of 0 1 2 white2 0 red 24 1 white red2] run out ne
  show ?thesis by simp
qed

lemma closeEnough_seed:
  assumes wf: "length data = 4 * (w * h)"
      and inb: "0 \<le> x" "x < int w" "0 \<le> y" "y < int h"
      and tol: "0 \<le> tol"
  shows "closeEnough \<lparr> env_width = w, env_height = h,
              env_barrier = fill_barrier w h data (seed_target w data x y) tol gap bg,
              env_target = seed_target w data x y, env_tolerance = tol, env_fill = fill \<rparr>
            data (idx w x y)"
proof -
  have p: "0 \<le> y * int w + x" "y * int w + x < int (w * h)" using seed_index [OF inb] .
  then have "0 \<le> idx w x y" "idx w x y + 3 < int (length data)"
    using wf by (simp_all add: idx_4)
  then have "dist_target data (idx w x y) (pixel_at data (idx w x y)) = Some 0"
    by (rule dist_target_self)
  with seed_not_barrier [OF wf inb, of tol gap bg] tol show ?thesis
    by (simp add: closeEnough_def seed_target_pixel_at)
qed

text \<open>
  On a buffer of \<open>4 * width * height\<close> bytes and for an in-bounds seed, also one on a
  barrier pixel, the seed pixel is not a barrier after the carve-out. \<^verbatim>\<open>floodFill\<close> leaves
  the buffer unchanged when the seed colour equals the fill colour; when it differs and
  the tolerance is not negative, every run that returns has recoloured the seed pixel,
  and the run does return when the fill colour is farther than the tolerance from the
  target colour.
\<close>

lemma seed_carved_out:
  assumes wf: "length data = 4 * (w * h)"
      and inb: "0 \<le> x" "x < int w" "0 \<le> y" "y < int h"
  shows "\<not> mask_at (fill_barrier w h data (seed_target w data x y) tol gap bg) (idx w x y div 4) \<and>
         (sameColor (seed_target w data x y) fill \<longrightarrow>
            floodFill w h data x y fill tol gap bg = Some data) \<and>
         (\<not> sameColor (seed_target w data x y) fill \<and> 0 \<le> tol \<and>
          floodFill w h data x y fill tol gap bg = Some d' \<longrightarrow>
            sameColor (seed_target w d' x y) fill \<and> d' \<noteq> data) \<and>
         (0 \<le> tol \<and> fill_outside (seed_target w data x y) tol fill \<longrightarrow>
            (\<exists>d1. floodFill w h data x y fill tol gap bg = Some d1 \<and>
                  sameColor (seed_target w d1 x y) fill \<and> d1 \<noteq> data))"
proof -
  let ?e = "\<lparr> env_width = w, env_height = h,
              env_barrier = fill_barrier w h data (seed_target w data x y) tol gap bg,
              env_target = seed_target w data x y, env_tolerance = tol, env_fill = fill \<rparr>"
  have recol: "sameColor (seed_target w d x y) fill \<and> d \<noteq> data"
    if ns: "\<not> sameColor (seed_target w data x y) fill" and tol: "0 \<le> tol"
      and run: "floodFill w h data x y fill tol gap bg = Some d" for d
  proof -
    from floodFill_cases [OF run] ns run
    have "scan_loop ?e data [(x, y)] = Some d"
      by (auto simp: floodFill_def Let_def seed_not_barrier [OF wf inb])
    from scan_loop_seed [OF this] closeEnough_seed [OF wf inb tol, of gap bg fill] inb
    have "sameColor (seed_target w d x y) fill"
      by (simp add: seed_target_pixel_at)
    with ns show ?thesis by auto
  qed
  have far: "\<not> sameColor (seed_target w data x y) fill"
    if tol: "0 \<le> tol" and out: "fill_outside (seed_target w data x y) tol fill"
  proof
    assume s: "sameColor (seed_target w data x y) fill"
    have p: "0 \<le> y * int w + x" "y * int w + x < int (w * h)" using seed_index [OF inb] .
    then have "0 \<le> idx w x y" "idx w x y + 3 < int (length data)"
      using wf by (simp_all add: idx_4)
    then have d0: "dist_target data (idx w x y) (pixel_at data (idx w x y)) = Some 0"
      by (rule dist_target_self)
    from s have "sameColor (pixel_at data (idx w x y)) fill"
      by (simp add: seed_target_pixel_at)
    from dist_target_fill [OF this, of "pixel_at data (idx w x y)"] d0
    have "dist_target (bytes_of fill) 0 (pixel_at data (idx w x y)) = Some 0" by simp
    with out tol show False by (simp add: fill_outside_def seed_target_pixel_at)
  qed
  have total: "\<exists>d1. floodFill w h data x y fill tol gap bg = Some d1 \<and>
                  sameColor (seed_target w d1 x y) fill \<and> d1 \<noteq> data"
    if tol: "0 \<le> tol" and out: "fill_outside (seed_target w data x y) tol fill"
  proof -
    from floodFill_terminates [OF out, of h gap bg] obtain d1 where
      run: "floodFill w h data x y fill tol gap bg = Some d1" by blast
    from recol [OF far [OF tol out] tol run] run show ?thesis by blast
  qed
  have c1: "\<not> mask_at (fill_barrier w h data (seed_target w data x y) tol gap bg)
              (idx w x y div 4)"
    by (rule seed_not_barrier [OF wf inb])
  have c2: "sameColor (seed_target w data x y) fill \<longrightarrow>
              floodFill w h data x y fill tol gap bg = Some data"
    by (simp add: floodFill_same_colour)
  have c3: "\<not> sameColor (seed_target w data x y) fill \<and> 0 \<le> tol \<and>
            floodFill w h data x y fill tol gap bg = Some d' \<longrightarrow>
              sameColor (seed_target w d' x y) fill \<and> d' \<noteq> data"
    using recol [of d'] by blast
  have c4: "0 \<le> tol \<and> fill_outside (seed_target w data x y) tol fill \<longrightarrow>
            (\<exists>d1. floodFill w h data x y fill tol gap bg = Some d1 \<and>
                  sameColor (seed_target w d1 x y) fill \<and> d1 \<noteq> data)"
    using total by blast
  from c1 c2 c3 c4 show ?thesis by (intro conjI)
qed

text \<open>
  A black pixel on a white background is a barrier pixel, also after dilation; a fill with
  red at tolerance 24 seeded on it recolours it.
\<close>

lemma floodFill_seed_on_line:
  "jgt (dist_bg black_px (idx 1 0 0) white) barrierThreshold \<and>
   mask_at (dilate 1 1 1 (build_barrier 1 1 black_px white)) (idx 1 0 0 div 4) \<and>
   floodFill 1 1 black_px 0 0 red 24 1 white = Some red_px \<and>
   floodFill 1 1 black_px 0 0 red 24 1 white \<noteq> Some black_px"
  by code_simp

text \<open>
  The same input: the seed is a barrier before the carve-out and not after it, and the
  fill returns the recoloured buffer.
\<close>

lemma seed_carved_out_example:
  "length black_px = 4 * (1 * 1) \<and>
   mask_at (dilate 1 1 1 (build_barrier 1 1 black_px white)) (idx 1 0 0 div 4) \<and>
   \<not> mask_at (fill_barrier 1 1 black_px (seed_target 1 black_px 0 0) 24 1 white) (idx 1 0 0 div 4) \<and>
   \<not> sameColor (seed_target 1 black_px 0 0) red \<and>
   fill_outside (seed_target 1 black_px 0 0) 24 red \<and>
   floodFill 1 1 black_px 0 0 red 24 1 white = Some red_px \<and>
   sameColor (seed_target 1 red_px 0 0) red \<and> red_px \<noteq> black_px"
proof -
  have wf: "length black_px = 4 * (1 * 1)" by (simp add: black_px_def)
  have bar: "mask_at (dilate 1 1 1 (build_barrier 1 1 black_px white)) (idx 1 0 0 div 4)"
    by code_simp
  have ns: "\<not> sameColor (seed_target 1 black_px 0 0) red" by code_simp
  have out: "fill_outside (seed_target 1 black_px 0 0) 24 red" by code_simp
  have run: "floodFill 1 1 black_px 0 0 red 24 1 white = Some red_px" by code_simp
  from seed_carved_out [OF wf, of 0 0 24 1 white red red_px] wf bar ns out run
  show ?thesis by simp
qed

text \<open>
  Claim C10 as stated fails: on a white image of width 1 and height 2 the seed \<open>(1,0)\<close> has
  \<open>x \<ge> width\<close>, its index is that of pixel \<open>(0,1)\<close>, and the fill recolours both pixels.
\<close>

theorem floodFill_seed_beyond_row:
  "int 1 \<le> (1 :: int) \<and>
   floodFill 1 2 white2 1 0 red 24 1 white = Some red2 \<and>
   floodFill 1 2 white2 1 0 red 24 1 white \<noteq> Some white2"
  by code_simp

text \<open>
  The seed \<open>(0,2)\<close> on the same image lies below the last row: nothing changes.
\<close>

theorem floodFill_index_outside_witness:
  "length white2 = 4 * (1 * 2) \<and> int (1 * 2) \<le> 2 * int 1 + 0 \<and>
   (0 :: int) \<le> 0 \<and> (0 :: int) < int 1 \<and> int 2 \<le> (2 :: int) \<and>
   floodFill 1 2 white2 0 2 red 24 1 white = Some white2"
proof -
  have wf: "length white2 = 4 * (1 * 2)" by (simp add: white2_def)
  from floodFill_index_outside [OF wf, of 2 0 red 24 1 white] wf show ?thesis by simp
qed

end
